theory Spec2Isabelle
  imports Complex_Main "HOL-Library.Sublist" "HOL-Library.Log_Nat"
begin

section \<open>Credibility analyzer: a model of \<^verbatim>\<open>ml-service/app/analyzer.py\<close>\<close>

text \<open>
  The analyzer is a rule table over text: two tables of regular expressions (red flags and
  positive indicators), two keyword vocabularies, an additive score with a clamp, and an
  overview sentence. The model follows the module function by function and keeps its names
  (a leading underscore is dropped, Isabelle names start with a letter).

  Conventions of the model.
  \<^item> A text is a \<open>string\<close>: a list of 8-bit characters, read as the Unicode code points
    U+0000 to U+00FF. Python's \<^verbatim>\<open>str.lower\<close>, \<^verbatim>\<open>\w\<close> and case-insensitive matching
    are modelled as they act on these code points.
  \<^item> The score is computed in Python's arithmetic: exact integers, and IEEE binary64
    floats whose operations round to nearest (section \<open>Python numbers\<close>). A keyword
    weight is kept as the rational it is written as; as a Python float it is the binary64
    value nearest to it, \<open>round_double (kw_weight kw)\<close>, and a weight that is a float
    already stands for itself. The extractor's weights are the tenths 0.4 to 1.0.
  \<^item> \<^verbatim>\<open>uuid.uuid4()\<close> is a parameter \<open>uuid4 :: nat \<Rightarrow> string\<close>: the text of the
    \<open>n\<close>-th UUID the process draws. The number of UUIDs drawn so far and the cached
    device \<^verbatim>\<open>_DEVICE\<close> form the state that the functions pass along.
\<close>

subsection \<open>Characters\<close>

definition in_range :: "char \<Rightarrow> char \<Rightarrow> char \<Rightarrow> bool" where
  "in_range lo hi c = ((of_char lo :: nat) \<le> of_char c \<and> (of_char c :: nat) \<le> of_char hi)"

text \<open>\<^verbatim>\<open>str.lower\<close> on one code point below 256: A-Z and the Latin-1 capitals
  U+00C0..U+00DE (the multiplication sign U+00D7 apart) move up by 32.\<close>

definition py_lower :: "char \<Rightarrow> char" where
  "py_lower c =
     (if in_range CHR ''A'' CHR ''Z'' c \<or> (in_range (CHR 0xC0) (CHR 0xDE) c \<and> c \<noteq> CHR 0xD7)
      then char_of (of_char c + (32::nat)) else c)"

text \<open>The simple uppercase mapping. The capitals of U+00B5 and U+00FF lie beyond U+00FF;
  they are left in place, which no class of the tables below can observe.\<close>

definition py_upper :: "char \<Rightarrow> char" where
  "py_upper c =
     (if in_range CHR ''a'' CHR ''z'' c \<or> (in_range (CHR 0xE0) (CHR 0xFE) c \<and> c \<noteq> CHR 0xF7)
      then char_of (of_char c - (32::nat)) else c)"

definition lower :: "string \<Rightarrow> string" where
  "lower s = map py_lower s"

text \<open>\<^verbatim>\<open>str.capitalize\<close>: the first character in upper case, the rest in lower case.\<close>

fun capitalize :: "string \<Rightarrow> string" where
  "capitalize [] = []"
| "capitalize (c # cs) = py_upper c # map py_lower cs"

text \<open>The class \<^verbatim>\<open>\w\<close> of \<^verbatim>\<open>re\<close> for a \<^verbatim>\<open>str\<close> pattern: alphanumeric code points and
  the underscore. Below 256 the alphanumerics beyond ASCII are U+00AA, U+00B2, U+00B3,
  U+00B5, U+00B9, U+00BA, U+00BC..U+00BE, U+00C0..U+00D6, U+00D8..U+00F6 and
  U+00F8..U+00FF.\<close>

definition is_word :: "char \<Rightarrow> bool" where
  "is_word c =
     (in_range CHR ''a'' CHR ''z'' c \<or> in_range CHR ''A'' CHR ''Z'' c \<or>
      in_range CHR ''0'' CHR ''9'' c \<or> c = CHR ''_'' \<or>
      c \<in> set [CHR 0xAA, CHR 0xB2, CHR 0xB3, CHR 0xB5, CHR 0xB9, CHR 0xBA] \<or>
      in_range (CHR 0xBC) (CHR 0xBE) c \<or> in_range (CHR 0xC0) (CHR 0xD6) c \<or>
      in_range (CHR 0xD8) (CHR 0xF6) c \<or> in_range (CHR 0xF8) (CHR 0xFF) c)"

subsection \<open>Regular expressions of the tables\<close>

text \<open>
  The patterns of the module use literal text, the classes \<^verbatim>\<open>[A-Z]\<close>, \<^verbatim>\<open>[a-z]\<close> and
  \<^verbatim>\<open>[- ]\<close>, the word boundary \<^verbatim>\<open>\b\<close>, groups of alternatives, and the greedy
  repetitions \<^verbatim>\<open>{5,}\<close>, \<^verbatim>\<open>{2,}\<close> and \<^verbatim>\<open>+\<close> of one character class.
\<close>

datatype cclass = Lit char | Range char char | OneOf string

datatype regex =
    Str string
  | Cls cclass
  | WordB
  | AtLeast nat cclass
  | Cat "regex list"
  | Alt "regex list"

fun in_class :: "cclass \<Rightarrow> char \<Rightarrow> bool" where
  "in_class (Lit l) c = (c = l)"
| "in_class (Range lo hi) c = in_range lo hi c"
| "in_class (OneOf cs) c = (c \<in> set cs)"

text \<open>One character against a class; with \<^verbatim>\<open>re.IGNORECASE\<close> (\<open>ic\<close>) the character's
  lower and upper case forms count as well.\<close>

definition class_match :: "bool \<Rightarrow> cclass \<Rightarrow> char \<Rightarrow> bool" where
  "class_match ic cl c =
     (in_class cl c \<or> (ic \<and> (in_class cl (py_lower c) \<or> in_class cl (py_upper c))))"

definition chr_eq :: "bool \<Rightarrow> char \<Rightarrow> char \<Rightarrow> bool" where
  "chr_eq ic l c = (if ic then py_lower c = py_lower l else c = l)"

fun str_match :: "bool \<Rightarrow> string \<Rightarrow> string \<Rightarrow> bool" where
  "str_match ic [] rest = True"
| "str_match ic (l # ls) [] = False"
| "str_match ic (l # ls) (c # cs) = (chr_eq ic l c \<and> str_match ic ls cs)"

text \<open>\<^verbatim>\<open>\b\<close> holds between a word character and a non-word character; the two ends of
  the text count as non-word.\<close>

definition word_opt :: "char option \<Rightarrow> bool" where
  "word_opt p = (case p of None \<Rightarrow> False | Some c \<Rightarrow> is_word c)"

definition boundary :: "char option \<Rightarrow> string \<Rightarrow> bool" where
  "boundary prev rest = (word_opt prev \<noteq> word_opt (case rest of [] \<Rightarrow> None | c # _ \<Rightarrow> Some c))"

definition prev_after :: "char option \<Rightarrow> string \<Rightarrow> char option" where
  "prev_after prev m = (if m = [] then prev else Some (last m))"

text \<open>
  \<open>rmatch ic r prev rest\<close> lists the texts that \<open>r\<close> can match at the head of \<open>rest\<close>, in
  the order in which a backtracking matcher tries them (a greedy repetition offers its
  longest match first, a group its alternatives from left to right). \<open>prev\<close> is the
  character before \<open>rest\<close>, which \<^verbatim>\<open>\b\<close> looks at.
\<close>

fun rmatch :: "bool \<Rightarrow> regex \<Rightarrow> char option \<Rightarrow> string \<Rightarrow> string list" where
  "rmatch ic (Str s) prev rest = (if str_match ic s rest then [take (length s) rest] else [])"
| "rmatch ic (Cls cl) prev rest =
     (case rest of [] \<Rightarrow> [] | c # _ \<Rightarrow> if class_match ic cl c then [[c]] else [])"
| "rmatch ic WordB prev rest = (if boundary prev rest then [[]] else [])"
| "rmatch ic (AtLeast n cl) prev rest =
     (let run = takeWhile (class_match ic cl) rest
      in map (\<lambda>k. take k run) (rev [n ..< Suc (length run)]))"
| "rmatch ic (Cat []) prev rest = [[]]"
| "rmatch ic (Cat (r # rs)) prev rest =
     concat (map (\<lambda>m1. map (\<lambda>m2. m1 @ m2)
                          (rmatch ic (Cat rs) (prev_after prev m1) (drop (length m1) rest)))
                 (rmatch ic r prev rest))"
| "rmatch ic (Alt []) prev rest = []"
| "rmatch ic (Alt (r # rs)) prev rest = rmatch ic r prev rest @ rmatch ic (Alt rs) prev rest"

text \<open>\<^verbatim>\<open>re.search(pattern, text, flags)\<close>, read as a truth value: some position of the
  text has a match.\<close>

fun search_from :: "bool \<Rightarrow> regex \<Rightarrow> char option \<Rightarrow> string \<Rightarrow> bool" where
  "search_from ic r prev [] = (rmatch ic r prev [] \<noteq> [])"
| "search_from ic r prev (c # cs) = (rmatch ic r prev (c # cs) \<noteq> [] \<or> search_from ic r (Some c) cs)"

definition re_search :: "regex \<Rightarrow> string \<Rightarrow> bool \<Rightarrow> bool" where
  "re_search r text ic = search_from ic r None text"

text \<open>\<^verbatim>\<open>re.findall(pattern, text)\<close> for a pattern without groups: the matches from left
  to right, each the first one the matcher finds at the leftmost position that has one,
  the scan going on behind it. The analyzer's only such pattern matches no empty text; the
  scan steps over an empty match by one character.\<close>

function findall_from :: "regex \<Rightarrow> char option \<Rightarrow> string \<Rightarrow> string list" where
  "findall_from r prev rest =
     (case rmatch False r prev rest of
        [] \<Rightarrow> (case rest of [] \<Rightarrow> [] | c # cs \<Rightarrow> findall_from r (Some c) cs)
      | m # _ \<Rightarrow>
          (if m = [] \<or> rest = []
           then m # (case rest of [] \<Rightarrow> [] | c # cs \<Rightarrow> findall_from r (Some c) cs)
           else m # findall_from r (Some (last m)) (drop (length m) rest)))"
  by pat_completeness auto
termination
  by (relation "measure (\<lambda>(r, prev, rest). length rest)") auto

definition re_findall :: "regex \<Rightarrow> string \<Rightarrow> string list" where
  "re_findall r text = findall_from r None text"

subsection \<open>The tables\<close>

text \<open>Each rule is the pattern, the description and the tag (an icon name for a positive
  indicator, a severity for a red flag).\<close>

type_synonym pattern_info = "regex \<times> string \<times> string"

definition word_group :: "regex list \<Rightarrow> regex" where
  "word_group alternatives = Cat [WordB, Alt alternatives, WordB]"

definition POSITIVE_INDICATORS_PATTERNS :: "pattern_info list" where
  "POSITIVE_INDICATORS_PATTERNS =
    [(word_group [Str ''study'', Str ''studies'', Str ''research''],
        ''References scientific research'', ''science''),
     (word_group [Str ''according to'', Str ''cited'', Str ''source''],
        ''Cites sources'', ''verified''),
     (word_group [Str ''expert'', Str ''professor'', Str ''doctor'', Str ''dr.''],
        ''References expert opinions'', ''expert''),
     (word_group [Cat [Str ''peer'', Cls (OneOf ''- ''), Str ''reviewed''], Str ''journal'',
                  Str ''published''],
        ''References peer-reviewed content'', ''academic''),
     (word_group [Str ''data'', Str ''statistics'', Str ''percent'', Str ''%''],
        ''Uses data and statistics'', ''chart''),
     (word_group [Str ''university'', Str ''institution'', Str ''organization''],
        ''References institutions'', ''institution'')]"

definition RED_FLAG_PATTERNS :: "pattern_info list" where
  "RED_FLAG_PATTERNS =
    [(word_group [Str ''shocking'', Str ''unbelievable'', Str ''you won't believe''],
        ''Uses sensationalist language'', ''medium''),
     (word_group [Str ''they don't want you to know'', Str ''secret'', Str ''hidden truth''],
        ''Conspiracy-style language'', ''high''),
     (word_group [Str ''miracle'', Cat [Str ''cure'', Cls (OneOf ''- ''), Str ''all''],
                  Str ''guaranteed''],
        ''Makes unrealistic claims'', ''high''),
     (word_group [Str ''click here'', Str ''share now'', Str ''act fast''],
        ''Uses urgency tactics'', ''low''),
     (AtLeast 5 (Range CHR ''A'' CHR ''Z''), ''Excessive use of capital letters'', ''low''),
     (AtLeast 2 (Lit CHR ''!''), ''Excessive exclamation marks'', ''low''),
     (word_group [Str ''fake news'', Str ''mainstream media lies''],
        ''Attacks credible sources'', ''medium''),
     (word_group [Str ''100% proven'', Str ''absolutely certain''],
        ''Uses absolute claims'', ''medium'')]"

definition POSITIVE_KEYWORDS :: "string list" where
  "POSITIVE_KEYWORDS =
    [''research'', ''study'', ''evidence'', ''analysis'', ''data'', ''report'',
     ''expert'', ''scientist'', ''professor'', ''peer-reviewed'', ''journal'',
     ''verified'', ''confirmed'', ''documented'', ''official'', ''factual'']"

definition NEGATIVE_KEYWORDS :: "string list" where
  "NEGATIVE_KEYWORDS =
    [''shocking'', ''unbelievable'', ''secret'', ''conspiracy'', ''hoax'',
     ''miracle'', ''guaranteed'', ''exclusive'', ''urgent'', ''breaking'',
     ''viral'', ''exposed'', ''banned'', ''censored'', ''suppressed'']"

subsection \<open>Python numbers\<close>

text \<open>
  The score is a Python \<^verbatim>\<open>int\<close> until the first keyword is added and a \<^verbatim>\<open>float\<close>
  from then on. A float is an IEEE binary64 value: a finite one is given by the rational
  it denotes, and there are the two infinities and NaN. The two zeros are not told apart;
  no operation of the module can see the sign of a zero.
\<close>

datatype error = OverflowError | ValueError

datatype pyfloat = Fin rat | PosInf | NegInf | NaN

datatype number = PyInt int | PyFloat pyfloat

text \<open>Rounding to the nearest integer, a tie to the even one.\<close>

definition round_half_even :: "rat \<Rightarrow> int" where
  "round_half_even x =
     (let f = \<lfloor>x\<rfloor>; d = x - of_int f
      in if d < 1 / 2 then f else if 1 / 2 < d then f + 1 else if even f then f else f + 1)"

text \<open>The binary exponent of a non-zero rational: \<open>2 powi expo x \<le> \<bar>x\<bar> < 2 powi (expo x + 1)\<close>
  (lemma \<open>expo_bounds\<close> below). It is computed from the bit lengths of the numerator and
  the denominator.\<close>

definition expo :: "rat \<Rightarrow> int" where
  "expo x =
     (let (p, q) = quotient_of \<bar>x\<bar>; d = bitlen p - bitlen q
      in if 2 powi d \<le> \<bar>x\<bar> then d else d - 1)"

text \<open>
  Rounding a real result to binary64, to nearest and ties to even: 53 significant bits
  for a normal number, multiples of \<open>2 powi (- 1074)\<close> below \<open>2 powi (- 1022)\<close>, and an
  infinity when the rounded value reaches \<open>2 powi 1024\<close>. Python reads a float literal
  and converts an \<^verbatim>\<open>int\<close> to a float with the same rounding.
\<close>

definition round_double :: "rat \<Rightarrow> pyfloat" where
  "round_double x =
     (if x = 0 then Fin 0
      else let e = expo x;
               ulp = (if e < - 1022 then 2 powi (- 1074) else 2 powi (e - 52));
               y = of_int (round_half_even (x / ulp)) * ulp
           in if y \<noteq> 0 \<and> 1024 \<le> expo y then (if 0 < y then PosInf else NegInf) else Fin y)"

fun fneg :: "pyfloat \<Rightarrow> pyfloat" where
  "fneg (Fin a) = Fin (- a)"
| "fneg PosInf = NegInf"
| "fneg NegInf = PosInf"
| "fneg NaN = NaN"

fun fadd :: "pyfloat \<Rightarrow> pyfloat \<Rightarrow> pyfloat" where
  "fadd (Fin a) (Fin b) = round_double (a + b)"
| "fadd NaN _ = NaN"
| "fadd _ NaN = NaN"
| "fadd PosInf NegInf = NaN"
| "fadd NegInf PosInf = NaN"
| "fadd PosInf _ = PosInf"
| "fadd NegInf _ = NegInf"
| "fadd _ PosInf = PosInf"
| "fadd _ NegInf = NegInf"

definition fsub :: "pyfloat \<Rightarrow> pyfloat \<Rightarrow> pyfloat" where
  "fsub a b = fadd a (fneg b)"

fun fsign :: "pyfloat \<Rightarrow> int" where
  "fsign (Fin a) = (if a < 0 then - 1 else if a = 0 then 0 else 1)"
| "fsign PosInf = 1"
| "fsign NegInf = - 1"
| "fsign NaN = 0"

fun fmul :: "pyfloat \<Rightarrow> pyfloat \<Rightarrow> pyfloat" where
  "fmul (Fin a) (Fin b) = round_double (a * b)"
| "fmul NaN _ = NaN"
| "fmul _ NaN = NaN"
| "fmul a b =
     (if fsign a * fsign b = 0 then NaN else if 0 < fsign a * fsign b then PosInf else NegInf)"

text \<open>\<^verbatim>\<open>float(i)\<close> for an \<^verbatim>\<open>int\<close>, as the mixed operations \<^verbatim>\<open>int + float\<close> and
  \<^verbatim>\<open>int - float\<close> apply it: an \<^verbatim>\<open>int\<close> too large for a float raises
  \<^verbatim>\<open>OverflowError\<close>.\<close>

definition float_of_int :: "int \<Rightarrow> error + pyfloat" where
  "float_of_int i = (case round_double (of_int i) of Fin a \<Rightarrow> Inr (Fin a) | _ \<Rightarrow> Inl OverflowError)"

text \<open>\<^verbatim>\<open>b + x\<close> and \<^verbatim>\<open>b - x\<close> for a number \<open>b\<close> and a float \<open>x\<close>.\<close>

definition py_add :: "number \<Rightarrow> pyfloat \<Rightarrow> error + number" where
  "py_add b x =
     (case b of
        PyInt i \<Rightarrow> (case float_of_int i of Inl e \<Rightarrow> Inl e | Inr a \<Rightarrow> Inr (PyFloat (fadd a x)))
      | PyFloat a \<Rightarrow> Inr (PyFloat (fadd a x)))"

definition py_sub :: "number \<Rightarrow> pyfloat \<Rightarrow> error + number" where
  "py_sub b x =
     (case b of
        PyInt i \<Rightarrow> (case float_of_int i of Inl e \<Rightarrow> Inl e | Inr a \<Rightarrow> Inr (PyFloat (fsub a x)))
      | PyFloat a \<Rightarrow> Inr (PyFloat (fsub a x)))"

text \<open>\<^verbatim>\<open>int(b)\<close>: an \<^verbatim>\<open>int\<close> is returned as it is, a finite float is truncated toward
  zero, NaN raises \<^verbatim>\<open>ValueError\<close> and an infinity raises \<^verbatim>\<open>OverflowError\<close>.\<close>

definition py_int :: "number \<Rightarrow> error + int" where
  "py_int b =
     (case b of
        PyInt i \<Rightarrow> Inr i
      | PyFloat (Fin a) \<Rightarrow> Inr (if 0 \<le> a then \<lfloor>a\<rfloor> else \<lceil>a\<rceil>)
      | PyFloat NaN \<Rightarrow> Inl ValueError
      | PyFloat _ \<Rightarrow> Inl OverflowError)"

subsection \<open>Data of a result\<close>

record red_flag =
  rf_id :: string
  rf_description :: string
  rf_severity :: string

record positive_indicator =
  pi_id :: string
  pi_description :: string
  pi_icon :: string

text \<open>The weight of a keyword is the rational it is written as (0.8 is 4/5); the Python
  float is \<open>round_double\<close> of it.\<close>

record keyword =
  kw_term :: string
  kw_impact :: string
  kw_weight :: rat

record analysis_result =
  score :: int
  overview :: string
  red_flags :: "red_flag list"
  positive_indicators :: "positive_indicator list"
  keyword_list :: "keyword list"

subsection \<open>Process state: the device cache and the UUID source\<close>

record environment =
  USE_GPU :: "string option"
  cuda_available :: bool

record world =
  DEVICE :: "string option"
  uuids_drawn :: nat

text \<open>\<^verbatim>\<open>detect_gpu()["device"]\<close>: every failure of the detection ends on the CPU.\<close>

definition detect_gpu :: "environment \<Rightarrow> string" where
  "detect_gpu env = (if cuda_available env then ''cuda'' else ''cpu'')"

definition get_device :: "environment \<Rightarrow> string" where
  "get_device env =
     (let use_gpu_env = lower (case USE_GPU env of None \<Rightarrow> ''false'' | Some v \<Rightarrow> v)
      in if use_gpu_env \<in> set [''false'', ''0'', ''no''] then ''cpu'' else detect_gpu env)"

definition get_cached_device :: "environment \<Rightarrow> world \<Rightarrow> string \<times> world" where
  "get_cached_device env w =
     (case DEVICE w of
        None \<Rightarrow> (let d = get_device env in (d, w\<lparr>DEVICE := Some d\<rparr>))
      | Some d \<Rightarrow> (d, w))"

text \<open>\<^verbatim>\<open>str(uuid.uuid4())[:8]\<close>\<close>

definition generate_id :: "(nat \<Rightarrow> string) \<Rightarrow> world \<Rightarrow> string \<times> world" where
  "generate_id uuid4 w = (take 8 (uuid4 (uuids_drawn w)), w\<lparr>uuids_drawn := Suc (uuids_drawn w)\<rparr>)"

subsection \<open>The detectors\<close>

definition find_red_flags :: "(nat \<Rightarrow> string) \<Rightarrow> string \<Rightarrow> world \<Rightarrow> red_flag list \<times> world" where
  "find_red_flags uuid4 text w0 =
     fold (\<lambda>(pat, desc, sev) (flags, w).
             if re_search pat text True
             then (let (i, w') = generate_id uuid4 w
                   in (flags @ [\<lparr>rf_id = ''rf-'' @ i, rf_description = desc, rf_severity = sev\<rparr>], w'))
             else (flags, w))
          RED_FLAG_PATTERNS ([], w0)"

definition find_positive_indicators ::
  "(nat \<Rightarrow> string) \<Rightarrow> string \<Rightarrow> world \<Rightarrow> positive_indicator list \<times> world" where
  "find_positive_indicators uuid4 text w0 =
     fold (\<lambda>(pat, desc, icon) (indicators, w).
             if re_search pat text True
             then (let (i, w') = generate_id uuid4 w
                   in (indicators @ [\<lparr>pi_id = ''pi-'' @ i, pi_description = desc, pi_icon = icon\<rparr>], w'))
             else (indicators, w))
          POSITIVE_INDICATORS_PATTERNS ([], w0)"

text \<open>The rules of a table that fire on a text, as (description, tag) in table order.\<close>

definition matching :: "pattern_info list \<Rightarrow> string \<Rightarrow> (string \<times> string) list" where
  "matching tab text = map snd (filter (\<lambda>(pat, info). re_search pat text True) tab)"

subsection \<open>The keyword extractor\<close>

text \<open>The token pattern \<^verbatim>\<open>\b[a-z]+\b\<close>.\<close>

definition word_re :: regex where
  "word_re = Cat [WordB, AtLeast 1 (Range CHR ''a'' CHR ''z''), WordB]"

text \<open>The frequency dictionary of the words longer than 3 characters.\<close>

definition count_word :: "string \<Rightarrow> (string \<rightharpoonup> nat) \<Rightarrow> (string \<rightharpoonup> nat)" where
  "count_word word word_freq =
     (if length word > 3
      then word_freq(word \<mapsto> (case word_freq word of None \<Rightarrow> 0 | Some n \<Rightarrow> n) + 1)
      else word_freq)"

definition word_freq :: "string \<Rightarrow> (string \<rightharpoonup> nat)" where
  "word_freq text = fold count_word (re_findall word_re (lower text)) Map.empty"

text \<open>\<^verbatim>\<open>round(x, 2)\<close> on an exact value: to the nearest hundredth, a tie to the even one.\<close>

definition py_round2 :: "rat \<Rightarrow> rat" where
  "py_round2 x = of_int (round_half_even (x * 100)) / 100"

definition keyword_weight :: "nat \<Rightarrow> rat" where
  "keyword_weight freq = py_round2 (min 1 (3 / 10 + of_nat freq * (1 / 10)))"

definition add_keywords :: "(string \<rightharpoonup> nat) \<Rightarrow> string \<Rightarrow> string list \<Rightarrow> keyword list \<Rightarrow> keyword list" where
  "add_keywords freqs impact table kws0 =
     fold (\<lambda>kw kws.
             case freqs kw of
               Some freq \<Rightarrow>
                 kws @ [\<lparr>kw_term = kw, kw_impact = impact, kw_weight = keyword_weight freq\<rparr>]
             | None \<Rightarrow> kws)
          table kws0"

definition extract_keywords :: "string \<Rightarrow> keyword list" where
  "extract_keywords text =
     (let freqs = word_freq text;
          kws = add_keywords freqs ''positive'' POSITIVE_KEYWORDS [];
          kws = add_keywords freqs ''negative'' NEGATIVE_KEYWORDS kws
      in take 10 kws)"

subsection \<open>The score aggregator\<close>

definition severity_weights :: "string \<rightharpoonup> int" where
  "severity_weights = [''low'' \<mapsto> 5, ''medium'' \<mapsto> 10, ''high'' \<mapsto> 15]"

definition dict_get :: "('k \<rightharpoonup> 'v) \<Rightarrow> 'k \<Rightarrow> 'v \<Rightarrow> 'v" where
  "dict_get d k dflt = (case d k of None \<Rightarrow> dflt | Some v \<Rightarrow> v)"

text \<open>\<^verbatim>\<open>keyword["weight"] * 5\<close>: the weight is a float, \<open>round_double (kw_weight kw)\<close>
  (see the record \<open>keyword\<close>), and the product is rounded.\<close>

definition weight_times_5 :: "keyword \<Rightarrow> pyfloat" where
  "weight_times_5 kw = fmul (round_double (kw_weight kw)) (Fin 5)"

text \<open>The loop over the keywords; an exception of an addition ends it.\<close>

fun keywords_loop :: "keyword list \<Rightarrow> number \<Rightarrow> error + number" where
  "keywords_loop [] base_score = Inr base_score"
| "keywords_loop (kw # kws) base_score =
     (case (if kw_impact kw = ''positive''
            then py_add base_score (weight_times_5 kw)
            else py_sub base_score (weight_times_5 kw)) of
        Inl e \<Rightarrow> Inl e
      | Inr b \<Rightarrow> keywords_loop kws b)"

definition calculate_score ::
  "red_flag list \<Rightarrow> positive_indicator list \<Rightarrow> keyword list \<Rightarrow> error + int" where
  "calculate_score flags indicators kws =
     (let base_score = 50;
          base_score = fold (\<lambda>flag b. b - dict_get severity_weights (rf_severity flag) 5)
                            flags base_score;
          base_score = base_score + int (length indicators) * 8
      in case keywords_loop kws (PyInt base_score) of
           Inl e \<Rightarrow> Inl e
         | Inr b \<Rightarrow> (case py_int b of Inl e \<Rightarrow> Inl e | Inr n \<Rightarrow> Inr (max 0 (min 100 n))))"

subsection \<open>The overview\<close>

fun str_nat :: "nat \<Rightarrow> string" where
  "str_nat n =
     (if n < 10 then [char_of (48 + n)] else str_nat (n div 10) @ [char_of (48 + n mod 10)])"

text \<open>\<^verbatim>\<open>sep.join(parts)\<close>\<close>

fun join :: "string \<Rightarrow> string list \<Rightarrow> string" where
  "join sep [] = []"
| "join sep [p] = p"
| "join sep (p # q # ps) = p @ sep @ join sep (q # ps)"

definition generate_overview ::
  "int \<Rightarrow> red_flag list \<Rightarrow> positive_indicator list \<Rightarrow> string" where
  "generate_overview sc flags indicators =
     (let assessment =
            (if sc \<ge> 80 then ''This content appears to be highly credible.''
             else if sc \<ge> 60 then ''This content shows moderate credibility.''
             else if sc \<ge> 40 then ''This content has mixed credibility signals.''
             else if sc \<ge> 20 then ''This content shows low credibility.''
             else ''This content appears to have very low credibility.'');
          details = [];
          details = (if indicators \<noteq> []
                     then details @ [''Found '' @ str_nat (length indicators) @ '' positive indicator(s)'']
                     else details);
          details = (if flags \<noteq> []
                     then details @ [''identified '' @ str_nat (length flags) @ '' red flag(s)'']
                     else details)
      in if details \<noteq> []
         then assessment @ '' '' @ capitalize (join '' and '' details) @ ''.''
         else assessment)"

subsection \<open>The entry point\<close>

text \<open>The optional \<^verbatim>\<open>source_url\<close> argument is not read by the function and is left out;
  the device is fetched and not used, as in the source. An exception of
  \<^verbatim>\<open>_calculate_score\<close> leaves the function.\<close>

definition analyze_content ::
  "environment \<Rightarrow> (nat \<Rightarrow> string) \<Rightarrow> string \<Rightarrow> world \<Rightarrow> error + analysis_result \<times> world" where
  "analyze_content env uuid4 text w0 =
     (let (device, w1) = get_cached_device env w0;
          (flags, w2) = find_red_flags uuid4 text w1;
          (indicators, w3) = find_positive_indicators uuid4 text w2;
          kws = extract_keywords text
      in case calculate_score flags indicators kws of
           Inl e \<Rightarrow> Inl e
         | Inr sc \<Rightarrow>
             Inr (\<lparr>score = sc, overview = generate_overview sc flags indicators,
                   red_flags = flags, positive_indicators = indicators, keyword_list = kws\<rparr>,
                  w3))"

subsection \<open>What a detector returns, given the rules that fired\<close>

text \<open>The detectors draw one UUID for each rule that fires, in table order. These two
  functions build the lists from the fired rules and the number of UUIDs drawn before.\<close>

fun flags_of :: "(nat \<Rightarrow> string) \<Rightarrow> nat \<Rightarrow> (string \<times> string) list \<Rightarrow> red_flag list" where
  "flags_of uuid4 n [] = []"
| "flags_of uuid4 n ((desc, sev) # ms) =
     \<lparr>rf_id = ''rf-'' @ take 8 (uuid4 n), rf_description = desc, rf_severity = sev\<rparr>
       # flags_of uuid4 (Suc n) ms"

fun indicators_of :: "(nat \<Rightarrow> string) \<Rightarrow> nat \<Rightarrow> (string \<times> string) list \<Rightarrow> positive_indicator list" where
  "indicators_of uuid4 n [] = []"
| "indicators_of uuid4 n ((desc, icon) # ms) =
     \<lparr>pi_id = ''pi-'' @ take 8 (uuid4 n), pi_description = desc, pi_icon = icon\<rparr>
       # indicators_of uuid4 (Suc n) ms"

subsection \<open>What the extractor returns, given the frequencies\<close>

text \<open>The terms of a vocabulary that the frequency dictionary holds, in table order, and the
  keyword emitted for one of them.\<close>

definition found :: "(string \<rightharpoonup> nat) \<Rightarrow> string list \<Rightarrow> string list" where
  "found freqs table = filter (\<lambda>kw. freqs kw \<noteq> None) table"

definition keyword_of :: "(string \<rightharpoonup> nat) \<Rightarrow> string \<Rightarrow> string \<Rightarrow> keyword" where
  "keyword_of freqs impact kw =
     \<lparr>kw_term = kw, kw_impact = impact,
      kw_weight = min 1 (3 / 10 + of_nat (case freqs kw of None \<Rightarrow> 0 | Some n \<Rightarrow> n) * (1 / 10))\<rparr>"

subsection \<open>The letters that the capital-letter rule accepts\<close>

definition ascii_letter :: "char \<Rightarrow> bool" where
  "ascii_letter c = (in_range CHR ''A'' CHR ''Z'' c \<or> in_range CHR ''a'' CHR ''z'' c)"

subsection \<open>The aggregator as the specification words it\<close>

text \<open>The specification's reading of the score, to be compared with \<open>calculate_score\<close>:
  the integer part as one closed sum with the severities by cases, then one signed term
  \<open>weight * 5\<close> for each keyword, added in list order in Python's arithmetic, a truncation
  toward zero and a clamp.\<close>

definition severity_penalty :: "string \<Rightarrow> int" where
  "severity_penalty sev =
     (if sev = ''low'' then 5 else if sev = ''medium'' then 10 else if sev = ''high'' then 15 else 5)"

definition truncate :: "rat \<Rightarrow> int" where
  "truncate x = (if x < 0 then - \<lfloor>- x\<rfloor> else \<lfloor>x\<rfloor>)"




subsection \<open>The score where the float operations are exact\<close>

text \<open>
  The weights that are a tenth from 0.0 to 1.0 (the extractor produces no others), and the
  total of the score in exact arithmetic. For such weights five times the weight is a
  multiple of one half, and on lists of moderate length every float operation of the loop
  is exact (lemma \<open>calculate_score_exact\<close> below).
\<close>

definition tenth :: "rat \<Rightarrow> bool" where
  "tenth w = (w \<in> set [0, 1 / 10, 1 / 5, 3 / 10, 2 / 5, 1 / 2, 3 / 5, 7 / 10, 4 / 5, 9 / 10, 1])"

definition signed_term :: "keyword \<Rightarrow> rat" where
  "signed_term kw = (if kw_impact kw = ''positive'' then kw_weight kw * 5 else - (kw_weight kw * 5))"

definition exact_total :: "red_flag list \<Rightarrow> positive_indicator list \<Rightarrow> keyword list \<Rightarrow> rat" where
  "exact_total flags indicators kws =
     of_int (50 - (\<Sum>f\<leftarrow>flags. severity_penalty (rf_severity f)) + int (length indicators) * 8)
       + (\<Sum>kw\<leftarrow>kws. signed_term kw)"

section \<open>Properties\<close>

subsection \<open>Character classes by code point\<close>

text \<open>The character predicates as decision trees on the code point. They are equal to the
  definitions and are the equations by which concrete texts are evaluated.\<close>

lemma char_eq_code: "(c = d) = ((of_char c :: nat) = of_char d)"
  by simp

lemma is_word_code [code]:
  "is_word c =
     (let n = of_char c :: nat in
      if n < 128
      then (if n < 65 then (if n < 48 then False else n \<le> 57)
            else if n \<le> 90 then True
            else if n < 97 then n = 95
            else n \<le> 122)
      else (if n < 192 then n \<in> set [170, 178, 179, 181, 185, 186, 188, 189, 190]
            else (n \<noteq> 215 \<and> n \<noteq> 247)))"
proof -
  define n :: nat where "n = of_char c"
  have b: "n < 256" by (simp add: n_def)
  show ?thesis
    unfolding is_word_def in_range_def Let_def list.set insert_iff empty_iff
      char_eq_code[of c] n_def[symmetric]
    using b by simp arith
qed

lemma py_lower_code [code]:
  "py_lower c =
     (let n = of_char c :: nat in
      if n < 65 then c
      else if n \<le> 90 then char_of (n + 32)
      else if n < 192 then c
      else if n \<le> 222 then (if n = 215 then c else char_of (n + 32))
      else c)"
  unfolding py_lower_def in_range_def Let_def char_eq_code[of c]
  by simp

lemma py_upper_code [code]:
  "py_upper c =
     (let n = of_char c :: nat in
      if n < 97 then c
      else if n \<le> 122 then char_of (n - 32)
      else if n < 224 then c
      else if n \<le> 254 then (if n = 247 then c else char_of (n - 32))
      else c)"
  unfolding py_upper_def in_range_def Let_def char_eq_code[of c]
  by simp

lemma in_range_code [code]:
  "in_range lo hi c = (let n = of_char c :: nat in if n < of_char lo then False else n \<le> of_char hi)"
  by (auto simp: in_range_def Let_def)


subsection \<open>Rounding to binary64\<close>

text \<open>The exponent brackets its argument, so a multiple of one half below \<open>2 ^ 52\<close> in
  absolute value is a binary64 value: rounding leaves it as it is. Five times a weight that
  is a tenth is such a value, although the weight itself (0.1, say) is not.\<close>

lemma round_half_even_int: "round_half_even (of_int k) = k"
  by (simp add: round_half_even_def)

lemma expo_bounds:
  assumes "x \<noteq> 0"
  shows "2 powi expo x \<le> \<bar>x\<bar>" and "\<bar>x\<bar> < 2 powi (expo x + 1)"
proof -
  obtain p q where pq: "quotient_of \<bar>x\<bar> = (p, q)" by (cases "quotient_of \<bar>x\<bar>")
  then have q: "0 < q" by (rule quotient_of_denom_pos)
  from pq have x: "\<bar>x\<bar> = of_int p / of_int q" by (rule quotient_of_div)
  from assms have "0 < \<bar>x\<bar>" by simp
  with x q have p: "0 < p" by (simp add: zero_less_divide_iff)
  from bitlen_bounds[OF p] have p1: "2 ^ nat (bitlen p - 1) \<le> p" and p2: "p < 2 ^ nat (bitlen p)"
    by simp_all
  from bitlen_bounds[OF q] have q1: "2 ^ nat (bitlen q - 1) \<le> q" and q2: "q < 2 ^ nat (bitlen q)"
    by simp_all
  have bp: "1 \<le> bitlen p" using p by (simp add: bitlen_alt_def)
  have bq: "1 \<le> bitlen q" using q by (simp add: bitlen_alt_def)
  have P1: "(2::rat) powi (bitlen p - 1) \<le> of_int p"
    using p1 bp by (simp add: power_int_nonneg_exp)
  have P2: "of_int p < (2::rat) powi bitlen p"
    using p2 bp by (simp add: power_int_nonneg_exp)
  have Q1: "(2::rat) powi (bitlen q - 1) \<le> of_int q"
    using q1 bq by (simp add: power_int_nonneg_exp)
  have Q2: "of_int q < (2::rat) powi bitlen q"
    using q2 bq by (simp add: power_int_nonneg_exp)
  let ?d = "bitlen p - bitlen q"
  have up: "\<bar>x\<bar> < 2 powi (?d + 1)"
  proof -
    have "of_int p / of_int q < (2::rat) powi bitlen p / 2 powi (bitlen q - 1)"
      using P2 Q1 p q by (intro frac_less) simp_all
    also have "\<dots> = 2 powi (bitlen p - (bitlen q - 1))"
      by (rule power_int_diff[symmetric]) simp
    also have "bitlen p - (bitlen q - 1) = ?d + 1" by simp
    finally show ?thesis by (simp add: x)
  qed
  have lo: "2 powi (?d - 1) \<le> \<bar>x\<bar>"
  proof -
    have "(2::rat) powi (bitlen p - 1) / 2 powi bitlen q \<le> of_int p / of_int q"
      using P1 Q2 p q by (intro frac_le) simp_all
    moreover have "(2::rat) powi (bitlen p - 1) / 2 powi bitlen q = 2 powi (bitlen p - 1 - bitlen q)"
      by (rule power_int_diff[symmetric]) simp
    moreover have "bitlen p - 1 - bitlen q = ?d - 1" by simp
    ultimately show ?thesis by (simp add: x)
  qed
  show "2 powi expo x \<le> \<bar>x\<bar>"
    using lo by (simp add: expo_def pq Let_def)
  show "\<bar>x\<bar> < 2 powi (expo x + 1)"
    using up by (auto simp: expo_def pq Let_def not_le)
qed

lemma expo_le:
  assumes "x \<noteq> 0" "\<bar>x\<bar> < 2 powi n"
  shows "expo x < n"
proof (rule ccontr)
  assume "\<not> expo x < n"
  then have "(2::rat) powi n \<le> 2 powi expo x" by (intro power_int_increasing) simp_all
  with expo_bounds(1)[OF assms(1)] assms(2) show False by simp
qed

lemma expo_ge:
  assumes "x \<noteq> 0" "2 powi n \<le> \<bar>x\<bar>"
  shows "n \<le> expo x"
proof (rule ccontr)
  assume "\<not> n \<le> expo x"
  then have "(2::rat) powi (expo x + 1) \<le> 2 powi n" by (intro power_int_increasing) simp_all
  with expo_bounds(2)[OF assms(1)] assms(2) show False by simp
qed

lemma round_double_half:
  assumes "\<bar>of_int m / 2 :: rat\<bar> < 2 ^ 52"
  shows "round_double (of_int m / 2) = Fin (of_int m / 2)"
proof (cases "m = 0")
  case True
  then show ?thesis by (simp add: round_double_def)
next
  case False
  let ?x = "of_int m / 2 :: rat"
  from False have x0: "?x \<noteq> 0" by simp
  from False have "1 \<le> \<bar>m\<bar>" by simp
  then have "(1::rat) \<le> \<bar>of_int m\<bar>" by (simp flip: of_int_abs)
  then have "2 powi (- 1) \<le> \<bar>?x\<bar>" by (simp add: power_int_minus)
  from expo_ge[OF x0 this] have e1: "- 1 \<le> expo ?x" .
  from assms have "\<bar>?x\<bar> < 2 powi 52" by simp
  from expo_le[OF x0 this] have e2: "expo ?x < 52" .
  define k where "k = m * 2 ^ nat (51 - expo ?x)"
  have "(2::rat) powi (51 - expo ?x) = 2 ^ nat (51 - expo ?x)"
    using e2 by (simp add: power_int_nonneg_exp)
  moreover have "?x / 2 powi (expo ?x - 52) = of_int m * 2 powi (51 - expo ?x)"
    by (simp add: power_int_diff field_simps)
  ultimately have div: "?x / 2 powi (expo ?x - 52) = of_int k"
    by (simp add: k_def)
  have y: "of_int k * 2 powi (expo ?x - 52) = ?x"
    using div by (simp add: field_simps)
  have ulp: "(if expo ?x < - 1022 then 2 powi (- 1074) else 2 powi (expo ?x - 52))
               = (2::rat) powi (expo ?x - 52)"
    using e1 by simp
  have no: "\<not> (?x \<noteq> 0 \<and> 1024 \<le> expo ?x)"
    using e2 by simp
  show ?thesis
    unfolding round_double_def Let_def ulp div round_half_even_int y
    using x0 e2 by simp
qed

lemma tenth_products:
  "list_all (\<lambda>w. fmul (round_double w) (Fin 5) = Fin (w * 5))
     [0, 1 / 10, 1 / 5, 3 / 10, 2 / 5, 1 / 2, 3 / 5, 7 / 10, 4 / 5, 9 / 10, 1]"
  by code_simp

lemma tenth_times_5:
  assumes "tenth (kw_weight kw)"
  shows "weight_times_5 kw = Fin (kw_weight kw * 5)"
  using assms tenth_products
  unfolding tenth_def weight_times_5_def list_all_iff by blast

lemma tenth_half:
  assumes "tenth w"
  shows "\<exists>m. w * 5 = of_int m / 2 \<and> 0 \<le> m \<and> m \<le> 10"
proof -
  have "list_all (\<lambda>w. \<exists>m\<in>set [0 ..10]. w * 5 = of_int m / 2)
     [0, 1 / 10, 1 / 5, 3 / 10, 2 / 5, 1 / 2, 3 / 5, 7 / 10, 4 / 5, 9 / 10, 1::rat]"
    by code_simp
  with assms obtain m where "m \<in> set [0 ..10]" "w * 5 = of_int m / 2"
    unfolding tenth_def list_all_iff by blast
  then show ?thesis by auto
qed

subsection \<open>Score aggregation\<close>

lemma dict_get_severity: "dict_get severity_weights sev 5 = severity_penalty sev"
  by (simp add: dict_get_def severity_weights_def severity_penalty_def)

lemma fold_flags:
  "fold (\<lambda>flag b. b - dict_get severity_weights (rf_severity flag) 5) flags (b::int)
   = b - (\<Sum>f\<leftarrow>flags. severity_penalty (rf_severity f))"
  by (induction flags arbitrary: b) (simp_all add: dict_get_severity)

lemma penalties_bounds:
  "0 \<le> (\<Sum>f\<leftarrow>flags. severity_penalty (rf_severity f))"
  "(\<Sum>f\<leftarrow>flags. severity_penalty (rf_severity f)) \<le> 15 * int (length flags)"
  by (induction flags) (simp_all add: severity_penalty_def)

lemma py_int_fin: "py_int (PyFloat (Fin a)) = Inr (truncate a)"
  by (simp add: py_int_def truncate_def ceiling_def not_le)

lemma signed_term_half:
  assumes "tenth (kw_weight kw)"
  shows "\<exists>m. signed_term kw = of_int m / 2 \<and> \<bar>m\<bar> \<le> 10"
proof -
  from tenth_half[OF assms] obtain m where m: "kw_weight kw * 5 = of_int m / 2" "0 \<le> m" "m \<le> 10"
    by blast
  show ?thesis
  proof (cases "kw_impact kw = ''positive''")
    case True
    with m show ?thesis by (auto simp: signed_term_def)
  next
    case False
    with m have "signed_term kw = of_int (- m) / 2 \<and> \<bar>- m\<bar> \<le> 10"
      by (simp add: signed_term_def)
    then show ?thesis by blast
  qed
qed

lemma float_step:
  assumes "tenth (kw_weight kw)" and "\<bar>of_int m / 2 :: rat\<bar> + 5 < 2 ^ 52"
  shows "(if kw_impact kw = ''positive''
          then py_add (PyFloat (Fin (of_int m / 2))) (weight_times_5 kw)
          else py_sub (PyFloat (Fin (of_int m / 2))) (weight_times_5 kw))
         = Inr (PyFloat (Fin (of_int m / 2 + signed_term kw)))"
proof -
  from signed_term_half[OF assms(1)] obtain k where k: "signed_term kw = of_int k / 2" "\<bar>k\<bar> \<le> 10"
    by blast
  have sum: "of_int m / 2 + signed_term kw = (of_int (m + k) / 2 :: rat)"
    by (simp add: k add_divide_distrib)
  have "\<bar>of_int k / 2 :: rat\<bar> \<le> 5"
    using k(2) by (simp flip: of_int_abs)
  then have "\<bar>of_int (m + k) / 2 :: rat\<bar> < 2 ^ 52"
    using assms(2) by (simp add: add_divide_distrib)
  from round_double_half[OF this] have r: "round_double (of_int m / 2 + signed_term kw)
      = Fin (of_int m / 2 + signed_term kw)"
    by (simp only: sum)
  show ?thesis
  proof (cases "kw_impact kw = ''positive''")
    case True
    with r show ?thesis
      by (simp add: py_add_def tenth_times_5[OF assms(1)] signed_term_def)
  next
    case False
    with r show ?thesis
      by (simp add: py_sub_def fsub_def tenth_times_5[OF assms(1)] signed_term_def)
  qed
qed

lemma keywords_loop_exact:
  assumes "\<forall>kw\<in>set kws. tenth (kw_weight kw)"
    and "\<bar>of_int m / 2 :: rat\<bar> + 5 * of_nat (length kws) < 2 ^ 52"
  shows "keywords_loop kws (PyFloat (Fin (of_int m / 2)))
         = Inr (PyFloat (Fin (of_int m / 2 + (\<Sum>kw\<leftarrow>kws. signed_term kw))))"
  using assms
proof (induction kws arbitrary: m)
  case Nil
  show ?case by simp
next
  case (Cons kw kws)
  from Cons.prems(1) have t: "tenth (kw_weight kw)" by simp
  from signed_term_half[OF t] obtain k where k: "signed_term kw = of_int k / 2" "\<bar>k\<bar> \<le> 10"
    by blast
  have k5: "\<bar>of_int k / 2 :: rat\<bar> \<le> 5"
    using k(2) by (simp flip: of_int_abs)
  have b0: "\<bar>of_int m / 2 :: rat\<bar> + 5 < 2 ^ 52"
    using Cons.prems(2) by simp
  have sum: "of_int m / 2 + signed_term kw = (of_int (m + k) / 2 :: rat)"
    by (simp add: k add_divide_distrib)
  have b1: "\<bar>of_int (m + k) / 2 :: rat\<bar> + 5 * of_nat (length kws) < 2 ^ 52"
    using Cons.prems(2) k5 by (simp add: add_divide_distrib)
  from Cons.prems(1) have rest: "\<forall>kw\<in>set kws. tenth (kw_weight kw)" by simp
  have "keywords_loop (kw # kws) (PyFloat (Fin (of_int m / 2)))
        = keywords_loop kws (PyFloat (Fin (of_int (m + k) / 2)))"
    by (simp only: keywords_loop.simps float_step[OF t b0] sum sum.case)
  also have "\<dots> = Inr (PyFloat (Fin (of_int (m + k) / 2 + (\<Sum>kw\<leftarrow>kws. signed_term kw))))"
    by (rule Cons.IH[OF rest b1])
  also have "of_int (m + k) / 2 + (\<Sum>kw\<leftarrow>kws. signed_term kw)
      = (of_int m / 2 :: rat) + (\<Sum>kw\<leftarrow>kw # kws. signed_term kw)"
    by (simp add: k(1) add_divide_distrib)
  finally show ?case .
qed


lemma calculate_score_loop:
  "calculate_score flags indicators kws =
     (case keywords_loop kws
             (PyInt (50 - (\<Sum>f\<leftarrow>flags. severity_penalty (rf_severity f))
                     + int (length indicators) * 8)) of
        Inl e \<Rightarrow> Inl e
      | Inr b \<Rightarrow> (case py_int b of Inl e \<Rightarrow> Inl e | Inr n \<Rightarrow> Inr (max 0 (min 100 n))))"
  by (simp add: calculate_score_def fold_flags)




text \<open>With weights that are tenths, on lists of at most a million entries, the float
  accumulator holds the exact total at every step, and the score is the clamped integer
  part of the exact total.\<close>

lemma int_as_float:
  assumes "\<bar>of_int i :: rat\<bar> < 2 ^ 52"
  shows "py_add (PyInt i) x = py_add (PyFloat (Fin (of_int i))) x"
    and "py_sub (PyInt i) x = py_sub (PyFloat (Fin (of_int i))) x"
proof -
  have "(of_int (2 * i) / 2 :: rat) = of_int i" by simp
  with round_double_half[of "2 * i"] assms have "round_double (of_int i) = Fin (of_int i)"
    by simp
  then show "py_add (PyInt i) x = py_add (PyFloat (Fin (of_int i))) x"
    and "py_sub (PyInt i) x = py_sub (PyFloat (Fin (of_int i))) x"
    by (simp_all add: py_add_def py_sub_def float_of_int_def)
qed

lemma calculate_score_exact:
  assumes "\<forall>kw\<in>set kws. tenth (kw_weight kw)"
    and "length flags \<le> 1000000" "length indicators \<le> 1000000" "length kws \<le> 1000000"
  shows "calculate_score flags indicators kws =
           Inr (max 0 (min 100 (truncate (exact_total flags indicators kws))))"
proof -
  define i where "i = 50 - (\<Sum>f\<leftarrow>flags. severity_penalty (rf_severity f))
                     + int (length indicators) * 8"
  have "\<bar>i\<bar> \<le> 50 + 15 * int (length flags) + 8 * int (length indicators)"
    using penalties_bounds[of flags] by (simp add: i_def)
  with assms(2,3) have i: "\<bar>i\<bar> \<le> 23000050" by simp
  then have ir: "\<bar>of_int i :: rat\<bar> \<le> 23000050"
    by (simp flip: of_int_abs)
  have total: "exact_total flags indicators kws = of_int i + (\<Sum>kw\<leftarrow>kws. signed_term kw)"
    by (simp add: exact_total_def i_def)
  show ?thesis
  proof (cases kws)
    case Nil
    have "exact_total flags indicators [] = of_int i"
      by (simp add: exact_total_def i_def)
    with Nil show ?thesis
      by (simp add: calculate_score_loop i_def[symmetric] py_int_def truncate_def)
  next
    case (Cons kw ks)
    have small: "\<bar>of_int i :: rat\<bar> < 2 ^ 52" using ir by simp
    have "keywords_loop kws (PyInt i) = keywords_loop kws (PyFloat (Fin (of_int i)))"
      by (simp add: Cons int_as_float[OF small])
    also have "\<dots> = keywords_loop kws (PyFloat (Fin (of_int (2 * i) / 2)))"
      by simp
    also have "\<dots> = Inr (PyFloat (Fin (of_int (2 * i) / 2 + (\<Sum>kw\<leftarrow>kws. signed_term kw))))"
    proof (rule keywords_loop_exact[OF assms(1)])
      from assms(4) have "(of_nat (length kws) :: rat) \<le> of_nat 1000000"
        by (rule of_nat_mono)
      then have "(5 :: rat) * of_nat (length kws) \<le> 5000000"
        by simp
      with ir show "\<bar>of_int (2 * i) / 2 :: rat\<bar> + 5 * of_nat (length kws) < 2 ^ 52"
        by simp
    qed
    finally have "keywords_loop kws (PyInt i)
        = Inr (PyFloat (Fin (exact_total flags indicators kws)))"
      by (simp add: total)
    then show ?thesis
      by (simp add: calculate_score_loop i_def[symmetric] py_int_fin)
  qed
qed

lemma calculate_score_cong:
  assumes "map rf_severity flags = map rf_severity flags'" "length indicators = length indicators'"
  shows "calculate_score flags indicators kws = calculate_score flags' indicators' kws"
proof -
  have "map (\<lambda>f. severity_penalty (rf_severity f)) flags = map severity_penalty (map rf_severity flags)"
    by simp
  also have "\<dots> = map (\<lambda>f. severity_penalty (rf_severity f)) flags'"
    unfolding assms(1) by simp
  finally show ?thesis
    by (simp add: calculate_score_loop assms(2))
qed

subsection \<open>The weights and the order of the extracted keywords\<close>

lemma keyword_weight_eq: "keyword_weight n = min 1 (3 / 10 + of_nat n * (1 / 10))"
proof -
  have a: "min 1 (3 / 10 + of_nat n * (1 / 10)) = (of_int (int (min 10 (3 + n))) / 10 :: rat)"
    by (simp add: min_def)
  have b: "py_round2 (of_int k / 10) = of_int k / 10" for k
  proof -
    have "round_half_even ((of_int k / 10 :: rat) * 100) = k * 10"
      using round_half_even_int[of "k * 10"] by (simp add: mult.commute)
    then show ?thesis
      unfolding py_round2_def by simp
  qed
  show ?thesis
    unfolding keyword_weight_def a by (rule b)
qed

lemma add_keywords_eq:
  "add_keywords freqs impact table kws0 =
     kws0 @ map (keyword_of freqs impact) (found freqs table)"
  unfolding add_keywords_def found_def
proof (induction table arbitrary: kws0)
  case Nil
  show ?case by simp
next
  case (Cons kw table)
  show ?case
    by (cases "freqs kw") (simp_all add: Cons.IH keyword_of_def keyword_weight_eq)
qed

lemma extract_keywords_eq:
  "extract_keywords text =
     take 10 (map (keyword_of (word_freq text) ''positive'') (found (word_freq text) POSITIVE_KEYWORDS)
            @ map (keyword_of (word_freq text) ''negative'') (found (word_freq text) NEGATIVE_KEYWORDS))"
  by (simp add: extract_keywords_def add_keywords_eq Let_def)

subsection \<open>The detectors and the entry point\<close>

lemma red_flags_loop:
  "fold (\<lambda>(pat, desc, sev) (flags, w).
             if re_search pat text True
             then (let (i, w') = generate_id uuid4 w
                   in (flags @ [\<lparr>rf_id = ''rf-'' @ i, rf_description = desc, rf_severity = sev\<rparr>], w'))
             else (flags, w)) tab (acc, w)
   = (acc @ flags_of uuid4 (uuids_drawn w) (matching tab text),
      w\<lparr>uuids_drawn := uuids_drawn w + length (matching tab text)\<rparr>)"
proof (induction tab arbitrary: acc w)
  case Nil
  then show ?case by (simp add: matching_def)
next
  case (Cons rule tab)
  obtain pat desc sev where rule: "rule = (pat, desc, sev)" by (cases rule) auto
  show ?case
  proof (cases "re_search pat text True")
    case True
    then show ?thesis
      using Cons.IH by (simp add: rule matching_def generate_id_def)
  next
    case False
    then show ?thesis
      using Cons.IH by (simp add: rule matching_def)
  qed
qed

lemma find_red_flags_eq:
  "find_red_flags uuid4 text w =
     (flags_of uuid4 (uuids_drawn w) (matching RED_FLAG_PATTERNS text),
      w\<lparr>uuids_drawn := uuids_drawn w + length (matching RED_FLAG_PATTERNS text)\<rparr>)"
  unfolding find_red_flags_def red_flags_loop by simp

lemma indicators_loop:
  "fold (\<lambda>(pat, desc, icon) (indicators, w).
             if re_search pat text True
             then (let (i, w') = generate_id uuid4 w
                   in (indicators @ [\<lparr>pi_id = ''pi-'' @ i, pi_description = desc, pi_icon = icon\<rparr>], w'))
             else (indicators, w)) tab (acc, w)
   = (acc @ indicators_of uuid4 (uuids_drawn w) (matching tab text),
      w\<lparr>uuids_drawn := uuids_drawn w + length (matching tab text)\<rparr>)"
proof (induction tab arbitrary: acc w)
  case Nil
  then show ?case by (simp add: matching_def)
next
  case (Cons rule tab)
  obtain pat desc icon where rule: "rule = (pat, desc, icon)" by (cases rule) auto
  show ?case
  proof (cases "re_search pat text True")
    case True
    then show ?thesis
      using Cons.IH by (simp add: rule matching_def generate_id_def)
  next
    case False
    then show ?thesis
      using Cons.IH by (simp add: rule matching_def)
  qed
qed

lemma find_positive_indicators_eq:
  "find_positive_indicators uuid4 text w =
     (indicators_of uuid4 (uuids_drawn w) (matching POSITIVE_INDICATORS_PATTERNS text),
      w\<lparr>uuids_drawn := uuids_drawn w + length (matching POSITIVE_INDICATORS_PATTERNS text)\<rparr>)"
  unfolding find_positive_indicators_def indicators_loop by simp

lemma get_cached_device_uuids: "uuids_drawn (snd (get_cached_device env w)) = uuids_drawn w"
  by (simp add: get_cached_device_def Let_def split: option.splits)

lemma flags_of_fields:
  "map rf_description (flags_of uuid4 n ms) = map fst ms"
  "map rf_severity (flags_of uuid4 n ms) = map snd ms"
  "length (flags_of uuid4 n ms) = length ms"
  by (induction uuid4 n ms rule: flags_of.induct) simp_all

lemma indicators_of_fields:
  "map pi_description (indicators_of uuid4 n ms) = map fst ms"
  "map pi_icon (indicators_of uuid4 n ms) = map snd ms"
  "length (indicators_of uuid4 n ms) = length ms"
  by (induction uuid4 n ms rule: indicators_of.induct) simp_all

lemma generate_overview_cong:
  assumes "length flags = length flags'" "length indicators = length indicators'"
  shows "generate_overview sc flags indicators = generate_overview sc flags' indicators'"
proof -
  have e1: "(flags = []) = (flags' = [])"
    using assms(1) by (cases flags; cases flags') simp_all
  have e2: "(indicators = []) = (indicators' = [])"
    using assms(2) by (cases indicators; cases indicators') simp_all
  show ?thesis
    unfolding generate_overview_def e1 e2 assms by (rule refl)
qed

lemma analyze_content_eq:
  "analyze_content env uuid4 text w =
     (let flags = flags_of uuid4 (uuids_drawn w) (matching RED_FLAG_PATTERNS text);
          indicators = indicators_of uuid4
             (uuids_drawn w + length (matching RED_FLAG_PATTERNS text))
             (matching POSITIVE_INDICATORS_PATTERNS text);
          kws = extract_keywords text
      in case calculate_score flags indicators kws of
           Inl e \<Rightarrow> Inl e
         | Inr sc \<Rightarrow>
             Inr (\<lparr>score = sc, overview = generate_overview sc flags indicators,
                   red_flags = flags, positive_indicators = indicators, keyword_list = kws\<rparr>,
                  (snd (get_cached_device env w))
                    \<lparr>uuids_drawn := uuids_drawn w + length (matching RED_FLAG_PATTERNS text)
                       + length (matching POSITIVE_INDICATORS_PATTERNS text)\<rparr>))"
proof -
  obtain d w1 where g: "get_cached_device env w = (d, w1)" by (cases "get_cached_device env w")
  with get_cached_device_uuids[of env w] have "uuids_drawn w1 = uuids_drawn w" by simp
  then show ?thesis
    by (simp add: analyze_content_def g find_red_flags_eq find_positive_indicators_eq Let_def
          split: sum.splits)
qed

lemma tenth_weight: "tenth (min 1 (3 / 10 + of_nat n * (1 / 10)))"
proof (cases "7 \<le> n")
  case True
  then have "(7::rat) \<le> of_nat n" by (metis of_nat_le_iff of_nat_numeral)
  then have "min 1 (3 / 10 + of_nat n * (1 / 10)) = (1::rat)" by (simp add: min_def)
  then show ?thesis by (simp add: tenth_def)
next
  case False
  then have "n = 0 \<or> n = 1 \<or> n = 2 \<or> n = 3 \<or> n = 4 \<or> n = 5 \<or> n = 6" by arith
  then show ?thesis by (auto simp: tenth_def)
qed

lemma extract_keywords_tenths:
  "\<forall>kw\<in>set (extract_keywords t). tenth (kw_weight kw)"
proof
  fix kw assume "kw \<in> set (extract_keywords t)"
  then have "kw \<in> set (map (keyword_of (word_freq t) ''positive'') (found (word_freq t) POSITIVE_KEYWORDS)
            @ map (keyword_of (word_freq t) ''negative'') (found (word_freq t) NEGATIVE_KEYWORDS))"
    unfolding extract_keywords_eq by (rule in_set_takeD)
  then obtain impact k where "kw = keyword_of (word_freq t) impact k" by auto
  then show "tenth (kw_weight kw)"
    using tenth_weight[of "case word_freq t k of None \<Rightarrow> 0 | Some n \<Rightarrow> n"]
    by (simp add: keyword_of_def)
qed

lemma extract_keywords_length: "length (extract_keywords t) \<le> 10"
  by (simp add: extract_keywords_eq)

lemma matching_length: "length (matching tab t) \<le> length tab"
  by (simp add: matching_def)

lemma tables_length:
  "length RED_FLAG_PATTERNS = 8" "length POSITIVE_INDICATORS_PATTERNS = 6"
  by (simp_all add: RED_FLAG_PATTERNS_def POSITIVE_INDICATORS_PATTERNS_def)

lemma analyze_score:
  "calculate_score
     (flags_of uuid4 n (matching RED_FLAG_PATTERNS t))
     (indicators_of uuid4 n' (matching POSITIVE_INDICATORS_PATTERNS t))
     (extract_keywords t)
   = Inr (max 0 (min 100 (truncate (exact_total
       (flags_of uuid4 n (matching RED_FLAG_PATTERNS t))
       (indicators_of uuid4 n' (matching POSITIVE_INDICATORS_PATTERNS t))
       (extract_keywords t)))))"
proof (rule calculate_score_exact[OF extract_keywords_tenths])
  show "length (flags_of uuid4 n (matching RED_FLAG_PATTERNS t)) \<le> 1000000"
    using matching_length[of RED_FLAG_PATTERNS t] by (simp add: flags_of_fields tables_length)
  show "length (indicators_of uuid4 n' (matching POSITIVE_INDICATORS_PATTERNS t)) \<le> 1000000"
    using matching_length[of POSITIVE_INDICATORS_PATTERNS t]
    by (simp add: indicators_of_fields tables_length)
  show "length (extract_keywords t) \<le> 1000000"
    using extract_keywords_length[of t] by simp
qed

text \<open>
  C2. For every text the analysis returns a result (no float operation of the score
  overflows), and the score of the result is an integer (the field has type \<open>int\<close>)
  between 0 and 100, whatever the environment, the UUIDs drawn and the state of the device
  cache.
\<close>

theorem score_in_range:
  "\<exists>r w'. analyze_content env uuid4 text w = Inr (r, w') \<and> 0 \<le> score r \<and> score r \<le> 100"
  by (simp add: analyze_content_eq Let_def analyze_score)

lemma matching_empty:
  "matching RED_FLAG_PATTERNS [] = []" "matching POSITIVE_INDICATORS_PATTERNS [] = []"
  by code_simp code_simp

lemma extract_keywords_empty: "extract_keywords [] = []"
  by code_simp

lemma overview_neutral: "generate_overview 50 [] [] = ''This content has mixed credibility signals.''"
  by (simp add: generate_overview_def)

lemma score_neutral: "calculate_score [] [] [] = Inr 50"
  by (simp add: calculate_score_def py_int_def)

text \<open>
  C9. Analyzing the empty string gives a complete result: no red flag, no positive
  indicator, no keyword, the score 50 (and the neutral overview); and the aggregator gives
  exactly 50 on three empty lists.
\<close>

theorem analyze_empty_text:
  "(\<exists>w'. analyze_content env uuid4 '''' w =
      Inr (\<lparr>score = 50, overview = ''This content has mixed credibility signals.'',
            red_flags = [], positive_indicators = [], keyword_list = []\<rparr>, w'))
   \<and> calculate_score [] [] [] = Inr 50"
  by (simp add: analyze_content_eq matching_empty extract_keywords_empty overview_neutral score_neutral)

subsection \<open>The neutral test article\<close>

lemma matching_simple_article:
  "matching RED_FLAG_PATTERNS ''This is a simple test article.'' =
     [(''Excessive use of capital letters'', ''low'')]"
  by code_simp

lemma matching_simple_article_pos:
  "matching POSITIVE_INDICATORS_PATTERNS ''This is a simple test article.'' = []"
  by code_simp

lemma keywords_simple_article: "extract_keywords ''This is a simple test article.'' = []"
  by code_simp

lemma overview_one_flag:
  "generate_overview 45 [f] [] =
     ''This content has mixed credibility signals. Identified 1 red flag(s).''"
proof -
  have "generate_overview 45 [f] [] =
        generate_overview 45 [\<lparr>rf_id = [], rf_description = [], rf_severity = []\<rparr>] []"
    by (rule generate_overview_cong) simp_all
  also have "\<dots> = ''This content has mixed credibility signals. Identified 1 red flag(s).''"
    by code_simp
  finally show ?thesis .
qed

lemma score_one_low:
  "calculate_score [\<lparr>rf_id = i, rf_description = d, rf_severity = ''low''\<rparr>] [] [] = Inr 45"
  by (simp add: calculate_score_def py_int_def dict_get_severity severity_penalty_def)

text \<open>
  C4. The specification expects that analyzing \<^verbatim>\<open>This is a simple test article.\<close>
  gives no red flag, no positive indicator, a score between 40 and 60 and a non-empty
  overview. The code gives no positive indicator, no keyword, the score 45 and a non-empty
  overview, but it does give one red flag: the rule for capital letters is searched with
  \<^verbatim>\<open>re.IGNORECASE\<close> like every other rule, so the lower-case words \<^verbatim>\<open>simple\<close>
  and \<^verbatim>\<open>article\<close> match \<^verbatim>\<open>[A-Z]{5,}\<close>.
\<close>

theorem analyze_simple_article:
  "\<exists>w'. analyze_content env uuid4 ''This is a simple test article.'' w =
     Inr (\<lparr>score = 45,
           overview = ''This content has mixed credibility signals. Identified 1 red flag(s).'',
           red_flags = [\<lparr>rf_id = ''rf-'' @ take 8 (uuid4 (uuids_drawn w)),
                         rf_description = ''Excessive use of capital letters'',
                         rf_severity = ''low''\<rparr>],
           positive_indicators = [], keyword_list = []\<rparr>, w')"
  by (simp add: analyze_content_eq matching_simple_article matching_simple_article_pos
        keywords_simple_article score_one_low overview_one_flag)

subsection \<open>Determinism\<close>

text \<open>
  C8. Two calls of the analyzer on the same text both return a result, with the same score,
  the same overview, the same red-flag descriptions and severities, the same indicator
  descriptions and icons (and the same keywords), whatever UUIDs the two calls draw and in
  whatever state of the device cache and of the environment they run; only the \<open>id\<close>
  fields depend on the UUIDs. The second call may in particular start in the state the first
  one left.
\<close>

theorem analyze_twice_same:
  "\<exists>r1 w1 r2 w2.
     analyze_content env uuid4 text w = Inr (r1, w1) \<and>
     analyze_content env' uuid4' text w' = Inr (r2, w2) \<and>
     score r1 = score r2 \<and>
     overview r1 = overview r2 \<and>
     map rf_description (red_flags r1) = map rf_description (red_flags r2) \<and>
     map rf_severity (red_flags r1) = map rf_severity (red_flags r2) \<and>
     map pi_description (positive_indicators r1) = map pi_description (positive_indicators r2) \<and>
     map pi_icon (positive_indicators r1) = map pi_icon (positive_indicators r2) \<and>
     keyword_list r1 = keyword_list r2"
proof -
  let ?rf = "matching RED_FLAG_PATTERNS text"
  let ?pi = "matching POSITIVE_INDICATORS_PATTERNS text"
  let ?F = "flags_of uuid4 (uuids_drawn w) ?rf"
  let ?F' = "flags_of uuid4' (uuids_drawn w') ?rf"
  let ?I = "indicators_of uuid4 (uuids_drawn w + length ?rf) ?pi"
  let ?I' = "indicators_of uuid4' (uuids_drawn w' + length ?rf) ?pi"
  obtain s where s: "calculate_score ?F ?I (extract_keywords text) = Inr s"
    using analyze_score[of uuid4 "uuids_drawn w" "text" "uuids_drawn w + length ?rf"] by simp
  have "calculate_score ?F ?I (extract_keywords text) = calculate_score ?F' ?I' (extract_keywords text)"
    by (rule calculate_score_cong) (simp_all add: flags_of_fields indicators_of_fields)
  with s have s': "calculate_score ?F' ?I' (extract_keywords text) = Inr s" by simp
  have ov: "generate_overview s ?F ?I = generate_overview s ?F' ?I'"
    by (rule generate_overview_cong) (simp_all add: flags_of_fields indicators_of_fields)
  show ?thesis
    by (simp add: analyze_content_eq Let_def flags_of_fields indicators_of_fields s s' ov)
qed

subsection \<open>One more red flag\<close>







subsection \<open>The keyword extractor\<close>

lemma rmatch_word_re:
  assumes "m \<in> set (rmatch False word_re prev rest)"
  shows "list_all (in_range CHR ''a'' CHR ''z'') m"
proof -
  let ?P = "class_match False (Range CHR ''a'' CHR ''z'')"
  from assms obtain k where "m = take k (takeWhile ?P rest)"
    by (auto simp: word_re_def Let_def split: if_splits)
  then have "set m \<subseteq> set (takeWhile ?P rest)" by (simp add: set_take_subset)
  then have "\<forall>c\<in>set m. ?P c" by (auto dest: set_takeWhileD)
  then show ?thesis by (simp add: list_all_iff class_match_def)
qed

lemma findall_from_all:
  assumes "\<And>m p rs. m \<in> set (rmatch False r p rs) \<Longrightarrow> Q m"
  shows "w \<in> set (findall_from r prev rest) \<Longrightarrow> Q w"
  using assms
proof (induction r prev rest rule: findall_from.induct)
  case (1 r prev rest)
  show ?case
  proof (cases "rmatch False r prev rest")
    case Nil
    with "1.prems" "1.IH"(1) show ?thesis
      by (cases rest) (simp_all add: findall_from.simps[of r prev rest])
  next
    case (Cons m ms)
    then have m: "Q m"
      using "1.prems"(2)[of m prev rest] by simp
    show ?thesis
    proof (cases "m = [] \<or> rest = []")
      case True
      with Cons "1.prems" "1.IH"(2) m show ?thesis
        by (cases rest) (auto simp: findall_from.simps[of r prev rest])
    next
      case False
      with Cons "1.prems" "1.IH"(3) m show ?thesis
        by (auto simp: findall_from.simps[of r prev rest])
    qed
  qed
qed

lemma findall_word_re:
  "w \<in> set (findall_from word_re prev rest) \<Longrightarrow> list_all (in_range CHR ''a'' CHR ''z'') w"
  by (rule findall_from_all[where r = word_re]) (rule rmatch_word_re)

lemma count_word_dom: "count_word a m w \<noteq> None \<Longrightarrow> w = a \<or> m w \<noteq> None"
  by (auto simp: count_word_def split: if_splits)

lemma count_words_dom:
  "fold count_word ws m w = Some n \<Longrightarrow> w \<in> set ws \<or> m w \<noteq> None"
proof (induction ws arbitrary: m)
  case Nil
  then show ?case by simp
next
  case (Cons a ws)
  from Cons.prems have "fold count_word ws (count_word a m) w = Some n" by simp
  from Cons.IH[OF this] have "w \<in> set ws \<or> count_word a m w \<noteq> None" .
  with count_word_dom[of a m w] show ?case by auto
qed

lemma word_freq_letters:
  assumes "word_freq text w = Some n"
  shows "list_all (in_range CHR ''a'' CHR ''z'') w"
proof -
  from assms count_words_dom[of "re_findall word_re (lower text)" Map.empty w n]
  have "w \<in> set (re_findall word_re (lower text))" by (simp add: word_freq_def)
  then show ?thesis by (simp add: re_findall_def findall_word_re)
qed

lemma take_map_mem:
  "x \<in> set (take n xs) \<Longrightarrow> f x \<in> set (take n (map f xs @ ys))"
  by (auto simp: take_map)

text \<open>
  C5. The specification says that every term of the positive vocabulary that the frequency
  dictionary holds is emitted with impact \<^verbatim>\<open>positive\<close> and weight
  \<open>min(1.0, 0.3 + 0.1 * frequency)\<close>. The extractor cuts its list to 10 entries, so an
  eleventh positive term is in the dictionary and is not emitted (see the counterexample
  below). What holds: every one of the first 10 positive-vocabulary terms, in table order,
  that the dictionary holds is emitted with that impact and that weight (rounding to two
  decimals leaves a multiple of one tenth as it is). With five occurrences of
  \<^verbatim>\<open>research\<close> the keyword has weight 0.8.
\<close>

theorem positive_keyword_emitted:
  assumes "kw \<in> set (take 10 (found (word_freq text) POSITIVE_KEYWORDS))"
    and "word_freq text kw = Some n"
  shows "\<lparr>kw_term = kw, kw_impact = ''positive'',
          kw_weight = min 1 (3 / 10 + of_nat n * (1 / 10))\<rparr> \<in> set (extract_keywords text)"
proof -
  from assms(1) have "keyword_of (word_freq text) ''positive'' kw \<in> set (extract_keywords text)"
    unfolding extract_keywords_eq by (rule take_map_mem)
  with assms(2) show ?thesis by (simp add: keyword_of_def)
qed

lemma research5_words:
  "re_findall word_re (lower ''research research research research research'') =
     [''research'', ''research'', ''research'', ''research'', ''research'']"
  by code_simp

lemma research5_freq:
  "word_freq ''research research research research research'' ''research'' = Some 5"
  unfolding word_freq_def research5_words by code_simp

lemma research5_found:
  "''research'' \<in> set (take 10 (found (word_freq ''research research research research research'')
      POSITIVE_KEYWORDS))"
  unfolding word_freq_def research5_words by code_simp

theorem positive_keyword_emitted_witness:
  "word_freq ''research research research research research'' ''research'' = Some 5 \<and>
   \<lparr>kw_term = ''research'', kw_impact = ''positive'', kw_weight = 4 / 5\<rparr>
     \<in> set (extract_keywords ''research research research research research'')"
  using positive_keyword_emitted[OF research5_found research5_freq] research5_freq by simp

lemma crowded_words:
  "re_findall word_re (lower
     ''research study evidence analysis data report expert scientist professor journal verified shocking'') =
     [''research'', ''study'', ''evidence'', ''analysis'', ''data'', ''report'', ''expert'',
      ''scientist'', ''professor'', ''journal'', ''verified'', ''shocking'']"
  by code_simp

lemma crowded_found:
  "found (word_freq
     ''research study evidence analysis data report expert scientist professor journal verified shocking'')
     POSITIVE_KEYWORDS =
     [''research'', ''study'', ''evidence'', ''analysis'', ''data'', ''report'', ''expert'',
      ''scientist'', ''professor'', ''journal'', ''verified'']"
  unfolding word_freq_def crowded_words by code_simp

lemma crowded_freq:
  "word_freq
     ''research study evidence analysis data report expert scientist professor journal verified shocking''
     ''verified'' = Some 1"
  "word_freq
     ''research study evidence analysis data report expert scientist professor journal verified shocking''
     ''shocking'' = Some 1"
  unfolding word_freq_def crowded_words by code_simp code_simp

lemma crowded_terms:
  "map kw_term (extract_keywords
     ''research study evidence analysis data report expert scientist professor journal verified shocking'') =
     [''research'', ''study'', ''evidence'', ''analysis'', ''data'', ''report'', ''expert'',
      ''scientist'', ''professor'', ''journal'']"
  unfolding extract_keywords_def word_freq_def crowded_words by code_simp

theorem positive_keyword_emitted_counterexample:
  "''verified'' \<in> set POSITIVE_KEYWORDS \<and>
   word_freq
     ''research study evidence analysis data report expert scientist professor journal verified shocking''
     ''verified'' = Some 1 \<and>
   ''verified'' \<notin> set (map kw_term (extract_keywords
     ''research study evidence analysis data report expert scientist professor journal verified shocking''))"
  unfolding crowded_terms crowded_freq by code_simp

lemma subseq_found: "subseq (found freqs table) table"
  by (simp add: found_def)

lemma keyword_of_term: "map kw_term (map (keyword_of freqs impact) kws) = kws"
  by (induction kws) (simp_all add: keyword_of_def)

lemma keyword_of_impact: "kw_impact (keyword_of freqs impact kw) = impact"
  by (simp add: keyword_of_def)

text \<open>
  C6. For every text the extractor returns at most 10 keywords; they are the first 10 of the
  positive-vocabulary terms found, in table order, followed by the negative-vocabulary
  terms found, in table order (so the terms form a subsequence of the two tables, one after
  the other); and when 10 or more positive terms are found, every keyword returned is
  positive: no negative keyword appears.
\<close>

theorem keywords_capped_in_table_order:
  "length (extract_keywords text) \<le> 10 \<and>
   extract_keywords text =
     take 10 (map (keyword_of (word_freq text) ''positive'') (found (word_freq text) POSITIVE_KEYWORDS)
            @ map (keyword_of (word_freq text) ''negative'') (found (word_freq text) NEGATIVE_KEYWORDS)) \<and>
   subseq (map kw_term (extract_keywords text)) (POSITIVE_KEYWORDS @ NEGATIVE_KEYWORDS) \<and>
   (10 \<le> length (found (word_freq text) POSITIVE_KEYWORDS) \<longrightarrow>
      list_all (\<lambda>k. kw_impact k = ''positive'') (extract_keywords text))"
proof -
  let ?P = "found (word_freq text) POSITIVE_KEYWORDS"
  let ?N = "found (word_freq text) NEGATIVE_KEYWORDS"
  let ?all = "map (keyword_of (word_freq text) ''positive'') ?P
            @ map (keyword_of (word_freq text) ''negative'') ?N"
  have eq: "extract_keywords text = take 10 ?all" by (rule extract_keywords_eq)
  have len: "length (extract_keywords text) \<le> 10" by (simp add: eq)
  have "map kw_term (extract_keywords text) = take 10 (?P @ ?N)"
    unfolding eq take_map[symmetric] by (simp only: map_append keyword_of_term)
  moreover have "subseq (take 10 (?P @ ?N)) (?P @ ?N)"
    by (metis append_take_drop_id subseq_rev_drop_many subseq_order.order_refl append_Nil2 list_emb_append_mono list_emb_Nil)
  moreover have "subseq (?P @ ?N) (POSITIVE_KEYWORDS @ NEGATIVE_KEYWORDS)"
    by (intro list_emb_append_mono subseq_found)
  ultimately have sub: "subseq (map kw_term (extract_keywords text)) (POSITIVE_KEYWORDS @ NEGATIVE_KEYWORDS)"
    using subseq_order.order_trans by metis
  have pos: "list_all (\<lambda>k. kw_impact k = ''positive'') (extract_keywords text)"
    if "10 \<le> length ?P"
  proof -
    from that have "take 10 ?all = take 10 (map (keyword_of (word_freq text) ''positive'') ?P)"
      by simp
    then have "set (extract_keywords text) \<subseteq> set (map (keyword_of (word_freq text) ''positive'') ?P)"
      unfolding eq by (metis set_take_subset)
    then show ?thesis by (auto simp: list_all_iff keyword_of_impact)
  qed
  from len eq sub pos show ?thesis by blast
qed

theorem keywords_capped_in_table_order_witness:
  "word_freq
     ''research study evidence analysis data report expert scientist professor journal verified shocking''
     ''shocking'' = Some 1 \<and>
   list_all (\<lambda>k. kw_impact k = ''positive'') (extract_keywords
     ''research study evidence analysis data report expert scientist professor journal verified shocking'')"
proof -
  have "10 \<le> length (found (word_freq
     ''research study evidence analysis data report expert scientist professor journal verified shocking'')
     POSITIVE_KEYWORDS)"
    unfolding crowded_found by simp
  from conjunct2[OF conjunct2[OF conjunct2[OF keywords_capped_in_table_order]], rule_format, OF this]
  show ?thesis
    using crowded_freq(2) by simp
qed

lemma hyphen_not_letter: "\<not> list_all (in_range CHR ''a'' CHR ''z'') ''peer-reviewed''"
  by code_simp

text \<open>
  C10. For every text the frequency dictionary has no entry for \<^verbatim>\<open>peer-reviewed\<close>
  and the extractor never emits it: a token matches \<^verbatim>\<open>[a-z]+\<close>, so it holds no
  hyphen.
\<close>

theorem peer_reviewed_never_emitted:
  "word_freq text ''peer-reviewed'' = None \<and>
   ''peer-reviewed'' \<notin> set (map kw_term (extract_keywords text))"
proof -
  have none: "word_freq text ''peer-reviewed'' = None"
  proof (cases "word_freq text ''peer-reviewed''")
    case None then show ?thesis .
  next
    case (Some n)
    from word_freq_letters[OF this] hyphen_not_letter show ?thesis by simp
  qed
  let ?P = "found (word_freq text) POSITIVE_KEYWORDS"
  let ?N = "found (word_freq text) NEGATIVE_KEYWORDS"
  have "map kw_term (extract_keywords text) = take 10 (?P @ ?N)"
    unfolding extract_keywords_eq take_map[symmetric] by (simp only: map_append keyword_of_term)
  then have "set (map kw_term (extract_keywords text)) \<subseteq> set ?P \<union> set ?N"
    using set_take_subset[of 10 "?P @ ?N"] by simp
  moreover from none have "''peer-reviewed'' \<notin> set ?P \<union> set ?N"
    by (simp add: found_def)
  ultimately show ?thesis using none by blast
qed

subsection \<open>The capital-letter rule\<close>

lemma capital_class_ignorecase:
  "class_match True (Range CHR ''A'' CHR ''Z'') c = ascii_letter c"
proof -
  have "of_char c < (256::nat)" by simp
  then show ?thesis
    unfolding class_match_def ascii_letter_def in_class.simps py_lower_code py_upper_code
      in_range_def Let_def
    by (auto simp: of_char_of)
qed

lemma rmatch_at_least:
  "(rmatch ic (AtLeast n cl) prev rest \<noteq> []) = (n \<le> length (takeWhile (class_match ic cl) rest))"
  by (simp add: Let_def)

lemma search_at_least:
  "search_from ic (AtLeast n cl) prev text =
     (\<exists>pre s. text = pre @ s \<and> n \<le> length (takeWhile (class_match ic cl) s))"
proof (induction "text" arbitrary: prev)
  case Nil
  show ?case by (simp add: rmatch_at_least del: rmatch.simps)
next
  case (Cons c cs)
  let ?ok = "\<lambda>s. n \<le> length (takeWhile (class_match ic cl) s)"
  have "(\<exists>pre s. c # cs = pre @ s \<and> ?ok s) = (?ok (c # cs) \<or> (\<exists>pre s. cs = pre @ s \<and> ?ok s))"
  proof
    assume "\<exists>pre s. c # cs = pre @ s \<and> ?ok s"
    then obtain pre s where ps: "c # cs = pre @ s" "?ok s" by blast
    show "?ok (c # cs) \<or> (\<exists>pre s. cs = pre @ s \<and> ?ok s)"
    proof (cases pre)
      case Nil
      with ps show ?thesis by simp
    next
      case (Cons a pre')
      with ps have "cs = pre' @ s" by simp
      with ps(2) show ?thesis by blast
    qed
  next
    assume "?ok (c # cs) \<or> (\<exists>pre s. cs = pre @ s \<and> ?ok s)"
    then show "\<exists>pre s. c # cs = pre @ s \<and> ?ok s"
    proof
      assume "?ok (c # cs)"
      then have "c # cs = [] @ (c # cs) \<and> ?ok (c # cs)" by simp
      then show ?thesis by blast
    next
      assume "\<exists>pre s. cs = pre @ s \<and> ?ok s"
      then obtain pre s where "cs = pre @ s" "?ok s" by blast
      then have "c # cs = (c # pre) @ s \<and> ?ok s" by simp
      then show ?thesis by blast
    qed
  qed
  then show ?case
    by (simp add: rmatch_at_least Cons.IH del: rmatch.simps)
qed

lemma run_of_length:
  "(\<exists>pre s. text = pre @ s \<and> n \<le> length (takeWhile P s)) =
   (\<exists>pre run post. text = pre @ run @ post \<and> length run = n \<and> list_all P run)"
proof
  assume "\<exists>pre s. text = pre @ s \<and> n \<le> length (takeWhile P s)"
  then obtain pre s where ps: "text = pre @ s" "n \<le> length (takeWhile P s)" by blast
  let ?run = "take n (takeWhile P s)"
  let ?post = "drop n (takeWhile P s) @ dropWhile P s"
  have "s = ?run @ ?post"
    by (simp only: append_assoc[symmetric] append_take_drop_id takeWhile_dropWhile_id)
  moreover have "length ?run = n" using ps(2) by simp
  moreover have "list_all P ?run"
    by (auto simp: list_all_iff dest: in_set_takeD set_takeWhileD)
  ultimately show "\<exists>pre run post. text = pre @ run @ post \<and> length run = n \<and> list_all P run"
    using ps(1) by metis
next
  assume "\<exists>pre run post. text = pre @ run @ post \<and> length run = n \<and> list_all P run"
  then obtain pre run post where r: "text = pre @ run @ post" "length run = n" "list_all P run"
    by blast
  then have "takeWhile P (run @ post) = run @ takeWhile P post"
    by (simp add: takeWhile_append2 list_all_iff)
  with r(2) have "n \<le> length (takeWhile P (run @ post))" by simp
  with r(1) show "\<exists>pre s. text = pre @ s \<and> n \<le> length (takeWhile P s)" by blast
qed

lemma matching_descriptions:
  "(d \<in> set (map fst (matching tab t))) =
     (\<exists>(pat, d', tag) \<in> set tab. d' = d \<and> re_search pat t True)"
  by (induction tab) (auto simp: matching_def)

lemma capital_rule_fires:
  "(''Excessive use of capital letters'' \<in> set (map fst (matching RED_FLAG_PATTERNS t))) =
     re_search (AtLeast 5 (Range CHR ''A'' CHR ''Z'')) t True"
  unfolding matching_descriptions by (simp add: RED_FLAG_PATTERNS_def)

text \<open>
  What the code does: the flag \<^verbatim>\<open>Excessive use of capital letters\<close> is emitted exactly
  when the text holds 5 consecutive ASCII letters, of either case.
\<close>

theorem capital_letters_flag_any_case:
  "(''Excessive use of capital letters''
      \<in> set (map rf_description (fst (find_red_flags uuid4 t w)))) =
   (\<exists>pre run post. t = pre @ run @ post \<and> length run = 5 \<and> list_all ascii_letter run)"
proof -
  have "(''Excessive use of capital letters''
      \<in> set (map rf_description (fst (find_red_flags uuid4 t w)))) =
     re_search (AtLeast 5 (Range CHR ''A'' CHR ''Z'')) t True"
    by (simp only: find_red_flags_eq fst_conv flags_of_fields capital_rule_fires)
  also have "\<dots> = (\<exists>pre s. t = pre @ s \<and>
       5 \<le> length (takeWhile (class_match True (Range CHR ''A'' CHR ''Z'')) s))"
    unfolding re_search_def by (rule search_at_least)
  also have "\<dots> = (\<exists>pre run post. t = pre @ run @ post \<and> length run = 5 \<and>
       list_all (class_match True (Range CHR ''A'' CHR ''Z'')) run)"
    by (rule run_of_length)
  also have "class_match True (Range CHR ''A'' CHR ''Z'') = ascii_letter"
    by (rule ext) (rule capital_class_ignorecase)
  finally show ?thesis .
qed

lemma matching_hello:
  "matching RED_FLAG_PATTERNS ''hello'' = [(''Excessive use of capital letters'', ''low'')]"
  by code_simp

lemma hello_lower_case: "list_all (in_range CHR ''a'' CHR ''z'') ''hello''"
  by code_simp

text \<open>
  C3. The specification says that the capital-letter rule is case-sensitive: the flag
  \<^verbatim>\<open>Excessive use of capital letters\<close> if and only if the text has 5 consecutive
  upper-case letters. The code searches every rule with \<^verbatim>\<open>re.IGNORECASE\<close>, this one
  too: the lower-case text \<^verbatim>\<open>hello\<close> gets the flag.
\<close>

theorem capital_flag_on_lower_case:
  "fst (find_red_flags uuid4 ''hello'' w) =
     [\<lparr>rf_id = ''rf-'' @ take 8 (uuid4 (uuids_drawn w)),
       rf_description = ''Excessive use of capital letters'', rf_severity = ''low''\<rparr>]
   \<and> list_all (in_range CHR ''a'' CHR ''z'') ''hello''"
  by (simp only: find_red_flags_eq fst_conv matching_hello flags_of.simps hello_lower_case simp_thms)

end
